theory Spec2Isabelle
  imports Main "HOL-Library.Sublist"
begin

section \<open>Strings as the program uses them\<close>

text \<open>
  Python \<open>str\<close> values are modelled as \<open>string\<close> (lists of 8-bit characters); the
  model covers ASCII text.  \<open>lower_str\<close> is \<open>str.lower()\<close> on ASCII: the letters
  \<open>A\<close>..\<open>Z\<close> are mapped to \<open>a\<close>..\<open>z\<close>, every other character is unchanged.
\<close>

definition lower_char :: "char \<Rightarrow> char" where
  "lower_char c =
     (case map_of (zip ''ABCDEFGHIJKLMNOPQRSTUVWXYZ'' ''abcdefghijklmnopqrstuvwxyz'') c of
        Some d \<Rightarrow> d
      | None \<Rightarrow> c)"

definition lower_str :: "string \<Rightarrow> string" where
  "lower_str s = map lower_char s"

text \<open>\<open>contains sub s\<close> is Python's \<open>sub in s\<close> on strings.\<close>

fun contains :: "string \<Rightarrow> string \<Rightarrow> bool" where
  "contains sub [] = (sub = [])"
| "contains sub (c # cs) = (prefix sub (c # cs) \<or> contains sub cs)"

text \<open>\<open>s.startswith(p)\<close> and \<open>s.endswith(p)\<close>.\<close>

definition startswith :: "string \<Rightarrow> string \<Rightarrow> bool" where
  "startswith s p = prefix p s"

definition endswith :: "string \<Rightarrow> string \<Rightarrow> bool" where
  "endswith s p = prefix (rev p) (rev s)"

section \<open>Model listing: \<open>list_available_text_models\<close>\<close>

text \<open>
  One entry of \<open>genai.list_models()\<close>: its \<open>name\<close> attribute (absent, or a string) and
  its \<open>supported_generation_methods\<close>.  The argument of \<open>list_available_text_models\<close>
  is the sequence of entries the backend yields before the iteration ends or raises
  (the \<open>except Exception: pass\<close> keeps the names collected so far).
\<close>

record model_info =
  mi_name :: "string option"
  mi_methods :: "string list"

fun list_available_text_models :: "model_info list \<Rightarrow> string list" where
  "list_available_text_models [] = []"
| "list_available_text_models (m # ms) =
     (if list_ex (\<lambda>x. lower_str x = ''generatecontent'') (mi_methods m)
      then (case mi_name m of
              None \<Rightarrow> list_available_text_models ms
            | Some name \<Rightarrow>
                if name \<noteq> [] then name # list_available_text_models ms
                else list_available_text_models ms)
      else list_available_text_models ms)"

section \<open>Candidate list construction (lines 65-89 of \<open>generate_text\<close>)\<close>

definition pref_order :: "string list" where
  "pref_order =
     [''gemini-2.5-flash'',
      ''gemini-2.5-flash-latest'',
      ''gemini-2.5-pro'',
      ''gemini-2.5-pro-latest'',
      ''gemini-1.5-flash'',
      ''gemini-1.5-flash-latest'',
      ''gemini-1.5-pro'',
      ''gemini-1.5-pro-latest'',
      ''gemini-pro'']"

text \<open>The block guarded by \<open>if model_name:\<close>, starting from the empty list.\<close>

definition preferred_entries :: "string \<Rightarrow> string list" where
  "preferred_entries model_name =
     (if model_name \<noteq> [] then
        (if \<not> endswith model_name ''-latest'' \<and>
            (startswith model_name ''gemini-1.5-'' \<or> startswith model_name ''gemini-2.'')
         then [model_name, model_name @ ''-latest'']
         else [model_name])
      else [])"

text \<open>
  \<open>for n in pref_order: if n in available and n not in candidates: candidates.append(n)\<close>,
  over the not yet visited part of the ranking.
\<close>

fun add_ranked :: "string list \<Rightarrow> string list \<Rightarrow> string list \<Rightarrow> string list" where
  "add_ranked available [] candidates = candidates"
| "add_ranked available (n # ns) candidates =
     add_ranked available ns
       (if n \<in> set available \<and> n \<notin> set candidates then candidates @ [n] else candidates)"

text \<open>\<open>for n in available: if n not in candidates: candidates.append(n)\<close>.\<close>

fun add_available :: "string list \<Rightarrow> string list \<Rightarrow> string list" where
  "add_available [] candidates = candidates"
| "add_available (n # ns) candidates =
     add_available ns (if n \<notin> set candidates then candidates @ [n] else candidates)"

definition build_candidates :: "string \<Rightarrow> string list \<Rightarrow> string list" where
  "build_candidates model_name available =
     add_available available (add_ranked available pref_order (preferred_entries model_name))"

section \<open>The fallback loop (lines 91-111 of \<open>generate_text\<close>)\<close>

text \<open>
  An exception is represented by its text \<open>str(e)\<close>.  The test of lines 100-105 on
  \<open>msg = str(e).lower()\<close>:
\<close>

definition is_fallback_error :: "string \<Rightarrow> bool" where
  "is_fallback_error e =
     (let msg = lower_str e in
        contains ''404'' msg \<or> contains ''not found'' msg \<or>
        contains ''is not supported'' msg \<or> contains ''invalid argument'' msg)"

text \<open>
  How one call of \<open>generate_text\<close> ends: it returns a text, it re-raises the exception of
  a candidate, it raises the final \<open>RuntimeError\<close> whose message is built from \<open>tried\<close>,
  \<open>available\<close> and \<open>last_err\<close>, or it raises the \<open>RuntimeError\<close> of the missing API key.
\<close>

datatype outcome =
  Returned string
| Reraised string
| NoUsableModel "string list" "string list" "string option"
| MissingApiKey

text \<open>
  The local variables of the loop, and \<open>requested\<close>: the names for which a generation was
  requested so far, in order.  \<open>requested\<close> is not a variable of the source; it records the
  calls \<open>_make_model(name, ...)\<close> / \<open>generate_content(prompt)\<close> so that statements about
  which candidates are tried can be made.
\<close>

record loop_state =
  tried :: "string list"
  last_err :: "string option"
  requested :: "string list"

definition initial_state :: loop_state where
  "initial_state = \<lparr>tried = [], last_err = None, requested = []\<rparr>"

text \<open>
  The backend is a function from the model name to the result of the \<open>try\<close> body: \<open>Inl e\<close>
  when \<open>_make_model\<close>, \<open>generate_content\<close> or reading the text raises an exception with text
  \<open>e\<close>, \<open>Inr t\<close> when the text \<open>t\<close> is obtained (prompt and system instruction are fixed
  during one call of \<open>generate_text\<close>).
\<close>

type_synonym backend = "string \<Rightarrow> string + string"

fun try_candidates ::
  "backend \<Rightarrow> string list \<Rightarrow> string list \<Rightarrow> loop_state \<Rightarrow> outcome \<times> loop_state" where
  "try_candidates gen available [] st =
     (NoUsableModel (tried st) available (last_err st), st)"
| "try_candidates gen available (name # rest) st =
     (case gen name of
        Inr text \<Rightarrow> (Returned text, st\<lparr>requested := requested st @ [name]\<rparr>)
      | Inl e \<Rightarrow>
          (let st' = st\<lparr>tried := tried st @ [name], requested := requested st @ [name]\<rparr> in
             if is_fallback_error e
             then try_candidates gen available rest (st'\<lparr>last_err := Some e\<rparr>)
             else (Reraised e, st')))"

definition generate_text ::
  "string option \<Rightarrow> model_info list \<Rightarrow> backend \<Rightarrow> string \<Rightarrow> outcome \<times> loop_state" where
  "generate_text api_key listing gen model_name =
     (case api_key of
        None \<Rightarrow> (MissingApiKey, initial_state)
      | Some key \<Rightarrow>
          if key = [] then (MissingApiKey, initial_state)
          else
            (let available = list_available_text_models listing;
                 candidates = build_candidates model_name available
             in try_candidates gen available candidates initial_state))"

section \<open>Character classes, \<open>strip\<close> and \<open>splitlines\<close>\<close>

text \<open>
  On ASCII, \<open>str.isspace\<close> (used by \<open>strip\<close>) and the regular expression class \<open>\s\<close>
  hold for tab, line feed, vertical tab, form feed, carriage return, the separators
  0x1C..0x1F and the space; \<open>\d\<close> is \<open>0\<close>..\<open>9\<close>; \<open>\w\<close> is a letter, a digit or the
  underscore.
\<close>

definition is_space :: "char \<Rightarrow> bool" where
  "is_space c \<longleftrightarrow>
     c \<in> set [CHR 0x09, CHR 0x0A, CHR 0x0B, CHR 0x0C, CHR 0x0D,
               CHR 0x1C, CHR 0x1D, CHR 0x1E, CHR 0x1F, CHR 0x20]"

definition is_digit :: "char \<Rightarrow> bool" where
  "is_digit c \<longleftrightarrow> c \<in> set ''0123456789''"

definition is_word :: "char \<Rightarrow> bool" where
  "is_word c \<longleftrightarrow>
     c \<in> set ''abcdefghijklmnopqrstuvwxyzABCDEFGHIJKLMNOPQRSTUVWXYZ0123456789_''"

definition strip :: "string \<Rightarrow> string" where
  "strip s = rev (dropWhile is_space (rev (dropWhile is_space s)))"

text \<open>
  \<open>str.splitlines()\<close> on ASCII: a line ends at line feed, carriage return (with a directly
  following line feed), vertical tab, form feed or one of 0x1C..0x1E; the line ends are
  dropped, and no empty last line is produced.  \<open>cur\<close> is the line read so far.
\<close>

definition is_linebreak :: "char \<Rightarrow> bool" where
  "is_linebreak c \<longleftrightarrow>
     c \<in> set [CHR 0x0A, CHR 0x0B, CHR 0x0C, CHR 0x0D, CHR 0x1C, CHR 0x1D, CHR 0x1E]"

fun splitlines_from :: "string \<Rightarrow> string \<Rightarrow> string list" where
  "splitlines_from cur [] = (if cur = [] then [] else [cur])"
| "splitlines_from cur [c] = (if is_linebreak c then [cur] else [cur @ [c]])"
| "splitlines_from cur (c # d # cs) =
     (if c = CHR 0x0D \<and> d = CHR 0x0A then cur # splitlines_from [] cs
      else if is_linebreak c then cur # splitlines_from [] (d # cs)
      else splitlines_from (cur @ [c]) (d # cs))"

definition splitlines :: "string \<Rightarrow> string list" where
  "splitlines s = splitlines_from [] s"

section \<open>Regular expressions of the program, as matchers\<close>

text \<open>
  Each matcher takes the text from the position where the match is attempted and follows
  the pattern from left to right.  Every quantifier in the patterns below is followed by
  an item that cannot start with a character the quantifier accepts (or by the end of the
  pattern), so the greedy choice is the only one that can lead to a match.
\<close>

text \<open>\<open>\s+\<close> and \<open>\w+\<close>: the rest of the text after the run, when the run is not empty.\<close>

definition spaces1 :: "string \<Rightarrow> string option" where
  "spaces1 s = (if takeWhile is_space s = [] then None else Some (dropWhile is_space s))"

definition word1 :: "string \<Rightarrow> string option" where
  "word1 s = (if takeWhile is_word s = [] then None else Some (dropWhile is_word s))"

text \<open>A literal: the rest of the text after it.\<close>

definition lit :: "string \<Rightarrow> string \<Rightarrow> string option" where
  "lit l s = (if prefix l s then Some (drop (length l) s) else None)"

text \<open>\<open>re.search\<close> without anchors: the pattern is tried at every position, the end included.\<close>

fun search_any :: "(string \<Rightarrow> bool) \<Rightarrow> string \<Rightarrow> bool" where
  "search_any p [] = p []"
| "search_any p (c # cs) = (p (c # cs) \<or> search_any p cs)"

text \<open>
  \<open>re.search\<close> of a pattern that starts with \<open>^\<close> under \<open>re.M\<close>: the pattern is tried at
  the start of the text and after every line feed.  \<open>bol\<close> tells whether the current
  position is such a position.
\<close>

fun search_bol :: "(string \<Rightarrow> bool) \<Rightarrow> bool \<Rightarrow> string \<Rightarrow> bool" where
  "search_bol p bol [] = (bol \<and> p [])"
| "search_bol p bol (c # cs) = ((bol \<and> p (c # cs)) \<or> search_bol p (c = CHR 0x0A) cs)"

text \<open>\<open>\s*class\s+\w+\<close> (after the \<open>^\<close>).\<close>

definition class_decl_at :: "string \<Rightarrow> bool" where
  "class_decl_at s =
     (case lit ''class'' (dropWhile is_space s) of
        None \<Rightarrow> False
      | Some r \<Rightarrow> (case spaces1 r of None \<Rightarrow> False | Some r' \<Rightarrow> word1 r' \<noteq> None))"

text \<open>\<open>public\s+class\s+\w+\<close>.\<close>

definition public_class_at :: "string \<Rightarrow> bool" where
  "public_class_at s =
     (case lit ''public'' s of
        None \<Rightarrow> False
      | Some r \<Rightarrow>
          (case spaces1 r of
             None \<Rightarrow> False
           | Some r' \<Rightarrow>
               (case lit ''class'' r' of
                  None \<Rightarrow> False
                | Some r'' \<Rightarrow>
                    (case spaces1 r'' of None \<Rightarrow> False | Some r''' \<Rightarrow> word1 r''' \<noteq> None))))"

text \<open>\<open>function\s+\w+\s*\(|=>\<close>: the two alternatives.\<close>

definition function_decl_at :: "string \<Rightarrow> bool" where
  "function_decl_at s =
     (case lit ''function'' s of
        None \<Rightarrow> False
      | Some r \<Rightarrow>
          (case spaces1 r of
             None \<Rightarrow> False
           | Some r' \<Rightarrow>
               (case word1 r' of
                  None \<Rightarrow> False
                | Some r'' \<Rightarrow> lit ''('' (dropWhile is_space r'') \<noteq> None)))"

definition function_or_arrow_at :: "string \<Rightarrow> bool" where
  "function_or_arrow_at s = (function_decl_at s \<or> lit ''=>'' s \<noteq> None)"

section \<open>\<open>_guess_language_simple\<close>\<close>

definition guess_language_simple :: "string \<Rightarrow> string" where
  "guess_language_simple code_text =
     (let s = strip code_text in
        if (contains ''def '' s \<or> contains ''import '' s \<or> search_bol class_decl_at True s)
           \<and> \<not> contains ''#include'' s
        then ''python''
        else if contains ''#include'' s then ''c''
        else if search_any public_class_at s then ''java''
        else if search_any function_or_arrow_at s \<and> contains '';'' s then ''javascript''
        else '''')"

section \<open>Fenced blocks\<close>

text \<open>
  A match of the fence pattern: triple backtick, \<open>(\w+)?\<close>, line feed, \<open>(.*?)\<close> under
  \<open>re.S\<close>, line feed, triple backtick.  \<open>group1\<close> is \<open>None\<close> when the optional group did not
  take part in the match.
\<close>

record fence_match =
  group1 :: "string option"
  group2 :: string

definition fence :: string where
  "fence = [CHR 0x60, CHR 0x60, CHR 0x60]"

text \<open>
  \<open>(.*?)\<close> followed by line feed and the closing fence: the shortest body, that is the text
  up to the first line feed directly followed by a fence; the result is the body and the
  text after the closing fence.
\<close>

fun lazy_body :: "string \<Rightarrow> (string \<times> string) option" where
  "lazy_body [] = None"
| "lazy_body (c # cs) =
     (if prefix (CHR 0x0A # fence) (c # cs) then Some ([], drop 4 (c # cs))
      else (case lazy_body cs of
              None \<Rightarrow> None
            | Some (body, rest) \<Rightarrow> Some (c # body, rest)))"

text \<open>The whole pattern, tried at the start of \<open>s\<close>: the match and the text after it.\<close>

definition fence_match_at :: "string \<Rightarrow> (fence_match \<times> string) option" where
  "fence_match_at s =
     (case lit fence s of
        None \<Rightarrow> None
      | Some r \<Rightarrow>
          (let tag = takeWhile is_word r in
             (case lit [CHR 0x0A] (dropWhile is_word r) of
                None \<Rightarrow> None
              | Some r' \<Rightarrow>
                  (case lazy_body r' of
                     None \<Rightarrow> None
                   | Some (body, rest) \<Rightarrow>
                       Some (\<lparr>group1 = (if tag = [] then None else Some tag), group2 = body\<rparr>,
                             rest)))))"

lemma lazy_body_shorter: "lazy_body s = Some (body, rest) \<Longrightarrow> length rest < length s"
proof (induction s arbitrary: body rest)
  case Nil
  then show ?case by simp
next
  case (Cons c cs)
  then show ?case
    by (fastforce split: if_splits option.splits)
qed

lemma lit_not_longer: "lit l s = Some r \<Longrightarrow> length r \<le> length s"
  by (auto simp: lit_def split: if_splits)

lemma fence_match_at_shorter:
  assumes "fence_match_at s = Some (m, rest)"
  shows "length rest < length s"
proof -
  from assms obtain r r' body where
    r: "lit fence s = Some r" and
    r': "lit [CHR 0x0A] (dropWhile is_word r) = Some r'" and
    b: "lazy_body r' = Some (body, rest)"
    by (auto simp: fence_match_at_def Let_def split: option.splits)
  have "length rest < length r'"
    using b by (rule lazy_body_shorter)
  also have "length r' \<le> length (dropWhile is_word r)"
    using r' by (rule lit_not_longer)
  also have "\<dots> \<le> length r"
    by (rule length_dropWhile_le)
  also have "\<dots> \<le> length s"
    using r by (rule lit_not_longer)
  finally show ?thesis .
qed

text \<open>
  \<open>finditer\<close>: the matches from left to right; after a match the search goes on behind it,
  where no match starts the search moves one character on.
\<close>

function fence_finditer :: "string \<Rightarrow> fence_match list" where
  "fence_finditer [] = []"
| "fence_finditer (c # cs) =
     (case fence_match_at (c # cs) of
        None \<Rightarrow> fence_finditer cs
      | Some (m, rest) \<Rightarrow> m # fence_finditer rest)"
  by pat_completeness auto
termination
  by (relation "measure length") (auto dest: fence_match_at_shorter)

text \<open>\<open>m.group(n) or ""\<close>.\<close>

definition or_empty :: "string option \<Rightarrow> string" where
  "or_empty g = (case g of None \<Rightarrow> [] | Some s \<Rightarrow> s)"

section \<open>\<open>_extract_code_blocks\<close>\<close>

definition extract_code_blocks :: "string \<Rightarrow> (string \<times> string) list" where
  "extract_code_blocks text =
     map (\<lambda>m. (strip (lower_str (or_empty (group1 m))), group2 m)) (fence_finditer text)"

section \<open>\<open>_ai_generate_fixed_code\<close>\<close>

text \<open>
  \<open>max(blocks, key=...)\<close>: the items are visited from left to right and the current best is
  replaced only by an item with a strictly greater key.
\<close>

fun max_by_key :: "('a \<Rightarrow> nat) \<Rightarrow> 'a \<Rightarrow> 'a list \<Rightarrow> 'a" where
  "max_by_key key best [] = best"
| "max_by_key key best (x # xs) = max_by_key key (if key best < key x then x else best) xs"

text \<open>The key of line 329, \<open>len(m.group(2) or "")\<close>.\<close>

definition body_len :: "fence_match \<Rightarrow> nat" where
  "body_len m = length (group2 m)"

text \<open>Lines 327-329: \<open>None\<close> stands for the empty list of matches, where the code falls back.\<close>

definition largest_block :: "fence_match list \<Rightarrow> fence_match option" where
  "largest_block blocks =
     (case blocks of [] \<Rightarrow> None | b # bs \<Rightarrow> Some (max_by_key body_len b bs))"

text \<open>Lines 326-334, on the text \<open>out\<close> that \<open>generate_text\<close> returned.\<close>

definition fixed_code_of_response :: "string \<Rightarrow> string \<Rightarrow> string \<times> string" where
  "fixed_code_of_response code_text out =
     (case largest_block (fence_finditer out) of
        Some best \<Rightarrow> (strip (or_empty (group1 best)), group2 best)
      | None \<Rightarrow> (guess_language_simple code_text, code_text))"

text \<open>
  The whole function: an exception of \<open>generate_text\<close> is passed on (\<open>Inl\<close>), otherwise the
  pair of language tag and code is returned.
\<close>

definition ai_generate_fixed_code ::
  "string option \<Rightarrow> model_info list \<Rightarrow> backend \<Rightarrow> string \<Rightarrow> string \<Rightarrow> outcome + string \<times> string"
  where
  "ai_generate_fixed_code api_key listing gen code_text model_name =
     (case fst (generate_text api_key listing gen model_name) of
        Returned out \<Rightarrow> Inr (fixed_code_of_response code_text out)
      | failure \<Rightarrow> Inl failure)"

section \<open>\<open>_ai_generate_test_lines\<close>\<close>

text \<open>
  \<open>re.match(r"^\s*\d+\.?\s*(.*)$", ln)\<close>: the result is \<open>group(1)\<close> when the line matches.
  Without \<open>re.S\<close> the dot accepts every character but the line feed, and \<open>$\<close> holds at the
  end of the text and before a line feed that ends the text.
\<close>

definition match_numbered :: "string \<Rightarrow> string option" where
  "match_numbered ln =
     (let r = dropWhile is_space ln in
        if takeWhile is_digit r = [] then None
        else
          (let r1 = dropWhile is_digit r;
               r2 = (case lit ''.'' r1 of None \<Rightarrow> r1 | Some t \<Rightarrow> t);
               r3 = dropWhile is_space r2;
               g = takeWhile (\<lambda>c. c \<noteq> CHR 0x0A) r3;
               e = dropWhile (\<lambda>c. c \<noteq> CHR 0x0A) r3
           in if e = [] \<or> e = [CHR 0x0A] then Some g else None))"

text \<open>Line 286: the entry appended for one line.\<close>

definition clean_line :: "string \<Rightarrow> string" where
  "clean_line ln = (case match_numbered ln of Some g \<Rightarrow> strip g | None \<Rightarrow> ln)"

text \<open>The placeholder of line 291 (its one non-ASCII letter as the three bytes of UTF-8).\<close>

definition placeholder :: string where
  "placeholder = ''<b'' @ [CHR 0xE1, CHR 0xBB, CHR 0x95] @ '' sung test case>''"

text \<open>Line 280: the stripped lines that are not empty.\<close>

definition nonblank_lines :: "string \<Rightarrow> string list" where
  "nonblank_lines out = filter (\<lambda>ln. ln \<noteq> []) (map strip (splitlines out))"

text \<open>Lines 283-288: the loop with its \<open>break\<close>.\<close>

fun collect_cleaned :: "string list \<Rightarrow> string list \<Rightarrow> string list" where
  "collect_cleaned [] cleaned = cleaned"
| "collect_cleaned (ln # lns) cleaned =
     (let cleaned' = cleaned @ [clean_line ln] in
        if length cleaned' = 4 then cleaned' else collect_cleaned lns cleaned')"

text \<open>Lines 290-291: the padding loop.\<close>

function pad_cleaned :: "string list \<Rightarrow> string list" where
  "pad_cleaned cleaned =
     (if length cleaned < 4 then pad_cleaned (cleaned @ [placeholder]) else cleaned)"
  by pat_completeness auto
termination
  by (relation "measure (\<lambda>cleaned. 4 - length cleaned)") auto

declare pad_cleaned.simps [simp del]

text \<open>Lines 280-292, on the text \<open>out\<close> that \<open>generate_text\<close> returned.\<close>

definition test_lines_of_response :: "string \<Rightarrow> string list" where
  "test_lines_of_response out = take 4 (pad_cleaned (collect_cleaned (nonblank_lines out) []))"

text \<open>
  The whole function: an exception of \<open>generate_text\<close> is passed on (\<open>Inl\<close>), otherwise the
  four lines are returned.
\<close>

definition ai_generate_test_lines ::
  "string option \<Rightarrow> model_info list \<Rightarrow> backend \<Rightarrow> string \<Rightarrow> outcome + string list"
  where
  "ai_generate_test_lines api_key listing gen model_name =
     (case fst (generate_text api_key listing gen model_name) of
        Returned out \<Rightarrow> Inr (test_lines_of_response out)
      | failure \<Rightarrow> Inl failure)"

section \<open>The path argument of \<open>/promptify\<close>, \<open>/fixcode\<close> and \<open>/testify\<close>\<close>

text \<open>
  The three handlers contain the same text (lines 561-580, 594-613, 626-645).  The file
  system is a function from absolute paths to what is found there; \<open>abs_fp\<close> and \<open>cwd\<close>
  are the results of \<open>os.path.abspath\<close> for the argument and for the working directory.
\<close>

datatype file_entry = NoFile | Unreadable | File string

datatype code_source =
  Refused
| ReadFailed
| FileText string string

definition read_path_argument :: "(string \<Rightarrow> file_entry) \<Rightarrow> string \<Rightarrow> string \<Rightarrow> code_source" where
  "read_path_argument fs cwd abs_fp =
     (if \<not> startswith abs_fp cwd \<or> fs abs_fp = NoFile then Refused
      else (case fs abs_fp of
              File content \<Rightarrow> FileText abs_fp (strip content)
            | _ \<Rightarrow> ReadFailed))"

text \<open>
  A path lies inside a directory when it continues the directory's path after a
  separator (both paths absolute and normalised, as \<open>os.path.abspath\<close> returns them).
\<close>

definition inside_directory :: "string \<Rightarrow> string \<Rightarrow> bool" where
  "inside_directory dir p = (if dir = ''/'' then prefix dir p else prefix (dir @ ''/'') p)"

text \<open>
  \<open>first_occurrences seen xs\<close>: the elements of \<open>xs\<close> that are not in \<open>seen\<close>, in the order
  of \<open>xs\<close>, each one only where it occurs first.  It is used to state what the loop of
  \<open>add_available\<close> appends.
\<close>

fun first_occurrences :: "'a list \<Rightarrow> 'a list \<Rightarrow> 'a list" where
  "first_occurrences seen [] = []"
| "first_occurrences seen (x # xs) =
     (if x \<in> set seen then first_occurrences seen xs
      else x # first_occurrences (x # seen) xs)"


section \<open>Properties of the fallback loop\<close>

lemma try_candidates_skip:
  "\<forall>n \<in> set pre. \<exists>e. gen n = Inl e \<and> is_fallback_error e \<Longrightarrow>
   try_candidates gen available (pre @ rest) st =
   try_candidates gen available rest
     (st\<lparr>tried := tried st @ pre,
         requested := requested st @ pre,
         last_err := (if pre = [] then last_err st
                      else (case gen (last pre) of Inl e \<Rightarrow> Some e | Inr t \<Rightarrow> None))\<rparr>)"
proof (induction pre arbitrary: st)
  case Nil
  show ?case by simp
next
  case (Cons n pre)
  from Cons.prems obtain e where e: "gen n = Inl e" "is_fallback_error e"
    by auto
  from Cons.prems have rest: "\<forall>n \<in> set pre. \<exists>e. gen n = Inl e \<and> is_fallback_error e"
    by simp
  show ?case
    using e by (simp add: Cons.IH [OF rest])
qed

lemma generate_text_with_key:
  "key \<noteq> [] \<Longrightarrow>
   generate_text (Some key) listing gen model_name =
   try_candidates gen (list_available_text_models listing)
     (build_candidates model_name (list_available_text_models listing)) initial_state"
  by (simp add: generate_text_def Let_def)

lemma generate_text_after_failures:
  assumes key: "key \<noteq> []"
    and cands: "candidates = build_candidates model_name (list_available_text_models listing)"
    and K: "K \<le> length candidates"
    and fail: "\<forall>i < K. \<exists>e. gen (candidates ! i) = Inl e \<and> is_fallback_error e"
  shows "generate_text (Some key) listing gen model_name =
         try_candidates gen (list_available_text_models listing) (drop K candidates)
           \<lparr>tried = take K candidates,
            last_err = (if K = 0 then None
                        else (case gen (candidates ! (K - 1)) of
                                Inl e \<Rightarrow> Some e | Inr t \<Rightarrow> None)),
            requested = take K candidates\<rparr>"
proof -
  have pre: "\<forall>n \<in> set (take K candidates). \<exists>e. gen n = Inl e \<and> is_fallback_error e"
  proof
    fix n assume "n \<in> set (take K candidates)"
    then obtain i where "i < K" "n = candidates ! i"
      using K by (auto simp: in_set_conv_nth)
    with fail show "\<exists>e. gen n = Inl e \<and> is_fallback_error e" by auto
  qed
  have last: "last (take K candidates) = candidates ! (K - 1)" if "K \<noteq> 0"
  proof -
    have len: "length (take K candidates) = K" using K by simp
    have "take K candidates \<noteq> []" using that len by auto
    then have "last (take K candidates) = take K candidates ! (K - 1)"
      using len by (simp add: last_conv_nth)
    also have "\<dots> = candidates ! (K - 1)"
      using that by simp
    finally show ?thesis .
  qed
  have "generate_text (Some key) listing gen model_name =
        try_candidates gen (list_available_text_models listing)
          (take K candidates @ drop K candidates) initial_state"
    using generate_text_with_key [OF key] cands by simp
  also have "\<dots> = try_candidates gen (list_available_text_models listing) (drop K candidates)
           \<lparr>tried = take K candidates,
            last_err = (if K = 0 then None
                        else (case gen (candidates ! (K - 1)) of
                                Inl e \<Rightarrow> Some e | Inr t \<Rightarrow> None)),
            requested = take K candidates\<rparr>"
    unfolding try_candidates_skip [OF pre]
    using K by (cases "K = 0") (auto simp: initial_state_def last)
  finally show ?thesis .
qed

text \<open>
  C1: when the first \<open>K\<close> candidates fail with transient-marker errors and candidate \<open>K + 1\<close>
  yields a text, \<open>generate_text\<close> returns that text, the attempted list \<open>tried\<close> is exactly
  the first \<open>K\<close> candidates in their original order (so it has \<open>K\<close> entries), and the names
  for which a generation was requested are exactly the first \<open>K + 1\<close> candidates: no later
  candidate is tried, and exactly one of the requests yields a text.
\<close>

theorem fallback_returns_first_success:
  assumes key: "key \<noteq> []"
    and cands: "candidates = build_candidates model_name (list_available_text_models listing)"
    and K: "K < length candidates"
    and fail: "\<forall>i < K. \<exists>e. gen (candidates ! i) = Inl e \<and> is_fallback_error e"
    and ok: "gen (candidates ! K) = Inr text"
  shows "fst (generate_text (Some key) listing gen model_name) = Returned text \<and>
         tried (snd (generate_text (Some key) listing gen model_name)) = take K candidates \<and>
         length (tried (snd (generate_text (Some key) listing gen model_name))) = K \<and>
         requested (snd (generate_text (Some key) listing gen model_name)) =
           take (Suc K) candidates \<and>
         length (filter (\<lambda>n. \<not> isl (gen n))
           (requested (snd (generate_text (Some key) listing gen model_name)))) = 1"
proof -
  have K': "K \<le> length candidates" using K by simp
  have d: "drop K candidates = candidates ! K # drop (Suc K) candidates"
    using K by (simp add: Cons_nth_drop_Suc)
  have none: "filter (\<lambda>n. \<not> isl (gen n)) (take K candidates) = []"
  proof -
    have "isl (gen n)" if "n \<in> set (take K candidates)" for n
    proof -
      from that obtain i where "i < K" "n = candidates ! i"
        using K by (auto simp: in_set_conv_nth)
      with fail show ?thesis by auto
    qed
    then show ?thesis by (simp add: filter_empty_conv)
  qed
  show ?thesis
    unfolding generate_text_after_failures [OF key cands K' fail] d
    using K none ok by (simp add: take_Suc_conv_app_nth)
qed

theorem fallback_returns_first_success_witness:
  "build_candidates ''x''
     (list_available_text_models
        [\<lparr>mi_name = Some ''gemini-1.5-flash'', mi_methods = [''generateContent'']\<rparr>]) =
   [''x'', ''gemini-1.5-flash''] \<and>
   is_fallback_error ''404 Not Found'' \<and>
   fst (generate_text (Some ''k'')
     [\<lparr>mi_name = Some ''gemini-1.5-flash'', mi_methods = [''generateContent'']\<rparr>]
     (\<lambda>n. if n = ''x'' then Inl ''404 Not Found'' else Inr ''hello'') ''x'') =
     Returned ''hello'' \<and>
   tried (snd (generate_text (Some ''k'')
     [\<lparr>mi_name = Some ''gemini-1.5-flash'', mi_methods = [''generateContent'']\<rparr>]
     (\<lambda>n. if n = ''x'' then Inl ''404 Not Found'' else Inr ''hello'') ''x'')) = [''x''] \<and>
   requested (snd (generate_text (Some ''k'')
     [\<lparr>mi_name = Some ''gemini-1.5-flash'', mi_methods = [''generateContent'']\<rparr>]
     (\<lambda>n. if n = ''x'' then Inl ''404 Not Found'' else Inr ''hello'') ''x'')) =
     [''x'', ''gemini-1.5-flash'']"
proof -
  let ?listing = "[\<lparr>mi_name = Some ''gemini-1.5-flash'', mi_methods = [''generateContent'']\<rparr>]"
  let ?gen = "\<lambda>n. if n = ''x'' then Inl ''404 Not Found'' else Inr ''hello''"
  have key: "''k'' \<noteq> []" by simp
  have built: "build_candidates ''x'' (list_available_text_models ?listing) =
      [''x'', ''gemini-1.5-flash'']"
    by (simp add: build_candidates_def preferred_entries_def pref_order_def
        startswith_def endswith_def lower_str_def lower_char_def)
  note cands = built [symmetric]
  have K: "(1::nat) < length [''x'', ''gemini-1.5-flash'']" by simp
  have tr: "is_fallback_error ''404 Not Found''"
    by (simp add: is_fallback_error_def lower_str_def lower_char_def)
  have fail: "\<forall>i < (1::nat). \<exists>e. ?gen ([''x'', ''gemini-1.5-flash''] ! i) = Inl e \<and>
      is_fallback_error e"
    using tr by simp
  have ok: "?gen ([''x'', ''gemini-1.5-flash''] ! 1) = Inr ''hello''" by simp
  show ?thesis
    using fallback_returns_first_success [OF key cands K fail ok] built tr by simp
qed

text \<open>
  C2: when every candidate fails with a transient-marker error, \<open>generate_text\<close> ends with
  the final failure, which carries the whole candidate list as the attempted list, the
  available list, and as last error the error of the last candidate (no error when there
  is no candidate at all); every candidate was tried, in order.
\<close>

theorem all_transient_failures_exhaust:
  assumes key: "key \<noteq> []"
    and cands: "candidates = build_candidates model_name (list_available_text_models listing)"
    and fail: "\<forall>n \<in> set candidates. \<exists>e. gen n = Inl e \<and> is_fallback_error e"
  shows "generate_text (Some key) listing gen model_name =
         (NoUsableModel candidates (list_available_text_models listing)
            (if candidates = [] then None
             else (case gen (last candidates) of Inl e \<Rightarrow> Some e | Inr t \<Rightarrow> None)),
          \<lparr>tried = candidates,
           last_err = (if candidates = [] then None
                       else (case gen (last candidates) of Inl e \<Rightarrow> Some e | Inr t \<Rightarrow> None)),
           requested = candidates\<rparr>)"
proof -
  have fail': "\<forall>i < length candidates. \<exists>e. gen (candidates ! i) = Inl e \<and> is_fallback_error e"
    using fail by simp
  show ?thesis
    unfolding generate_text_after_failures [OF key cands order_refl fail']
    by (simp add: last_conv_nth)
qed

theorem all_transient_failures_exhaust_witness:
  "build_candidates ''gemini-pro'' (list_available_text_models []) = [''gemini-pro''] \<and>
   is_fallback_error ''models/gemini-pro is not supported'' \<and>
   generate_text (Some ''k'') []
     (\<lambda>n. Inl (''models/'' @ n @ '' is not supported'')) ''gemini-pro'' =
   (NoUsableModel [''gemini-pro''] [] (Some ''models/gemini-pro is not supported''),
    \<lparr>tried = [''gemini-pro''], last_err = Some ''models/gemini-pro is not supported'',
     requested = [''gemini-pro'']\<rparr>)"
proof -
  let ?gen = "\<lambda>n. Inl (''models/'' @ n @ '' is not supported'') :: string + string"
  have key: "''k'' \<noteq> []" by simp
  have built: "build_candidates ''gemini-pro'' (list_available_text_models []) = [''gemini-pro'']"
    by (simp add: build_candidates_def preferred_entries_def pref_order_def
        startswith_def endswith_def)
  note cands = built [symmetric]
  have tr: "is_fallback_error ''models/gemini-pro is not supported''"
    by (simp add: is_fallback_error_def lower_str_def lower_char_def)
  have fail: "\<forall>n \<in> set [''gemini-pro'']. \<exists>e. ?gen n = Inl e \<and> is_fallback_error e"
    using tr by simp
  show ?thesis
    using all_transient_failures_exhaust [OF key cands fail] built tr by simp
qed

text \<open>
  C3: when a candidate is reached (all candidates before it failed with transient-marker
  errors) and its attempt fails with an error that matches none of the four markers,
  \<open>generate_text\<close> re-raises that error, and the candidates for which a generation was
  requested end with this candidate: none after it is tried.
\<close>

theorem non_transient_error_aborts:
  assumes key: "key \<noteq> []"
    and cands: "candidates = build_candidates model_name (list_available_text_models listing)"
    and K: "K < length candidates"
    and fail: "\<forall>i < K. \<exists>e. gen (candidates ! i) = Inl e \<and> is_fallback_error e"
    and err: "gen (candidates ! K) = Inl e"
    and fatal: "\<not> is_fallback_error e"
  shows "fst (generate_text (Some key) listing gen model_name) = Reraised e \<and>
         requested (snd (generate_text (Some key) listing gen model_name)) =
           take (Suc K) candidates"
proof -
  have K': "K \<le> length candidates" using K by simp
  have d: "drop K candidates = candidates ! K # drop (Suc K) candidates"
    using K by (simp add: Cons_nth_drop_Suc)
  show ?thesis
    unfolding generate_text_after_failures [OF key cands K' fail] d
    using K err fatal by (simp add: take_Suc_conv_app_nth)
qed

theorem non_transient_error_aborts_witness:
  "build_candidates ''x''
     (list_available_text_models
        [\<lparr>mi_name = Some ''gemini-1.5-flash'', mi_methods = [''generateContent'']\<rparr>]) =
   [''x'', ''gemini-1.5-flash''] \<and>
   \<not> is_fallback_error ''quota exceeded'' \<and>
   fst (generate_text (Some ''k'')
     [\<lparr>mi_name = Some ''gemini-1.5-flash'', mi_methods = [''generateContent'']\<rparr>]
     (\<lambda>n. if n = ''x'' then Inl ''quota exceeded'' else Inr ''hello'') ''x'') =
     Reraised ''quota exceeded'' \<and>
   requested (snd (generate_text (Some ''k'')
     [\<lparr>mi_name = Some ''gemini-1.5-flash'', mi_methods = [''generateContent'']\<rparr>]
     (\<lambda>n. if n = ''x'' then Inl ''quota exceeded'' else Inr ''hello'') ''x'')) = [''x'']"
proof -
  let ?listing = "[\<lparr>mi_name = Some ''gemini-1.5-flash'', mi_methods = [''generateContent'']\<rparr>]"
  let ?gen = "\<lambda>n. if n = ''x'' then Inl ''quota exceeded'' else Inr ''hello''"
  have key: "''k'' \<noteq> []" by simp
  have built: "build_candidates ''x'' (list_available_text_models ?listing) =
      [''x'', ''gemini-1.5-flash'']"
    by (simp add: build_candidates_def preferred_entries_def pref_order_def
        startswith_def endswith_def lower_str_def lower_char_def)
  note cands = built [symmetric]
  have K: "(0::nat) < length [''x'', ''gemini-1.5-flash'']" by simp
  have fail: "\<forall>i < (0::nat). \<exists>e. ?gen ([''x'', ''gemini-1.5-flash''] ! i) = Inl e \<and>
      is_fallback_error e"
    by simp
  have err: "?gen ([''x'', ''gemini-1.5-flash''] ! 0) = Inl ''quota exceeded''" by simp
  have fatal: "\<not> is_fallback_error ''quota exceeded''"
    by (simp add: is_fallback_error_def lower_str_def lower_char_def)
  show ?thesis
    using non_transient_error_aborts [OF key cands K fail err fatal] built fatal by simp
qed

section \<open>Properties of the candidate list\<close>

lemma first_occurrences_cong:
  "\<forall>x \<in> set xs. x \<in> set seen \<longleftrightarrow> x \<in> set seen' \<Longrightarrow>
   first_occurrences seen xs = first_occurrences seen' xs"
proof (induction xs arbitrary: seen seen')
  case Nil
  show ?case by simp
next
  case (Cons x xs)
  have a: "first_occurrences seen xs = first_occurrences seen' xs"
    using Cons.prems by (intro Cons.IH) simp
  have b: "first_occurrences (x # seen) xs = first_occurrences (x # seen') xs"
    using Cons.prems by (intro Cons.IH) simp
  show ?case using Cons.prems a b by simp
qed

lemma first_occurrences_set: "set (first_occurrences seen xs) = set xs - set seen"
  by (induction xs arbitrary: seen) auto

lemma first_occurrences_distinct: "distinct (first_occurrences seen xs)"
  by (induction xs arbitrary: seen) (auto simp: first_occurrences_set)

lemma first_occurrences_filter:
  "distinct xs \<Longrightarrow> first_occurrences seen xs = filter (\<lambda>x. x \<notin> set seen) xs"
proof (induction xs arbitrary: seen)
  case Nil
  show ?case by simp
next
  case (Cons x xs)
  have "filter (\<lambda>y. y \<notin> set (x # seen)) xs = filter (\<lambda>y. y \<notin> set seen) xs"
    using Cons.prems by (intro filter_cong) auto
  then show ?case using Cons by simp
qed

lemma add_available_eq: "add_available ns cs = cs @ first_occurrences cs ns"
proof (induction ns arbitrary: cs)
  case Nil
  show ?case by simp
next
  case (Cons n ns)
  have "first_occurrences (cs @ [n]) ns = first_occurrences (n # cs) ns"
    by (rule first_occurrences_cong) simp
  then show ?case by (simp add: Cons.IH)
qed

lemma add_ranked_eq:
  "distinct ns \<Longrightarrow>
   add_ranked av ns cs = cs @ filter (\<lambda>n. n \<in> set av \<and> n \<notin> set cs) ns"
proof (induction ns arbitrary: cs)
  case Nil
  show ?case by simp
next
  case (Cons n ns)
  have "filter (\<lambda>m. m \<in> set av \<and> m \<notin> set (cs @ [n])) ns =
        filter (\<lambda>m. m \<in> set av \<and> m \<notin> set cs) ns"
    using Cons.prems by (intro filter_cong) auto
  then show ?case using Cons by simp
qed

lemma distinct_pref_order: "distinct pref_order"
  by (simp add: pref_order_def)

lemma distinct_preferred_entries: "distinct (preferred_entries model_name)"
  by (simp add: preferred_entries_def)

lemma build_candidates_eq:
  "build_candidates model_name available =
   preferred_entries model_name @
   filter (\<lambda>n. n \<in> set available \<and> n \<notin> set (preferred_entries model_name)) pref_order @
   first_occurrences (preferred_entries model_name @ pref_order) available"
proof -
  let ?P = "preferred_entries model_name"
  let ?R = "filter (\<lambda>n. n \<in> set available \<and> n \<notin> set ?P) pref_order"
  have "first_occurrences (?P @ ?R) available = first_occurrences (?P @ pref_order) available"
    by (rule first_occurrences_cong) auto
  then show ?thesis
    by (simp add: build_candidates_def add_ranked_eq [OF distinct_pref_order] add_available_eq)
qed

lemma distinct_build_candidates: "distinct (build_candidates model_name available)"
  unfolding build_candidates_eq
  by (auto simp: distinct_preferred_entries distinct_pref_order first_occurrences_distinct
      first_occurrences_set)

lemma set_build_candidates:
  "set (build_candidates model_name available) = set (preferred_entries model_name) \<union> set available"
  unfolding build_candidates_eq
  by (auto simp: first_occurrences_set)

lemma requested_subset:
  "set (requested (snd (try_candidates gen available cs st))) \<subseteq> set (requested st) \<union> set cs"
proof (induction cs arbitrary: st)
  case Nil
  show ?case by simp
next
  case (Cons n cs)
  show ?case
  proof (cases "gen n")
    case (Inr t)
    then show ?thesis by auto
  next
    case (Inl e)
    show ?thesis
    proof (cases "is_fallback_error e")
      case True
      let ?st = "st\<lparr>tried := tried st @ [n], requested := requested st @ [n],
        last_err := Some e\<rparr>"
      have "set (requested (snd (try_candidates gen available cs ?st))) \<subseteq>
            set (requested ?st) \<union> set cs"
        by (rule Cons.IH)
      then show ?thesis using Inl True by (auto simp: Let_def)
    next
      case False
      then show ?thesis using Inl by (auto simp: Let_def)
    qed
  qed
qed

lemma listed_names_not_empty: "[] \<notin> set (list_available_text_models ms)"
  by (induction ms) (auto split: option.splits)

lemma requested_of_generate_text:
  "set (requested (snd (generate_text api_key listing gen model_name))) \<subseteq>
   set (build_candidates model_name (list_available_text_models listing))"
proof (cases "api_key = None \<or> api_key = Some []")
  case True
  then show ?thesis by (auto simp: generate_text_def initial_state_def)
next
  case False
  then obtain key where "api_key = Some key" "key \<noteq> []" by auto
  then show ?thesis
    using requested_subset [of gen "list_available_text_models listing"
        "build_candidates model_name (list_available_text_models listing)" initial_state]
    by (simp add: generate_text_with_key initial_state_def)
qed

text \<open>
  C10: with the empty string as preferred identifier the candidate list has no preferred
  entry and no \<open>-latest\<close> variant: for every available list it consists of the ranking
  identifiers that are available, in ranking order, followed by the available identifiers
  outside the ranking in their original order (each at its first occurrence); and
  \<open>generate_text\<close> never requests a generation for the empty name.
\<close>

theorem empty_preference_candidates:
  "build_candidates [] available =
     filter (\<lambda>n. n \<in> set available) pref_order @ first_occurrences pref_order available \<and>
   [] \<notin> set (requested (snd (generate_text api_key listing gen [])))"
proof
  show "build_candidates [] available =
     filter (\<lambda>n. n \<in> set available) pref_order @ first_occurrences pref_order available"
    by (simp add: build_candidates_eq preferred_entries_def)
  have "[] \<notin> set (build_candidates [] (list_available_text_models listing))"
    by (simp add: set_build_candidates preferred_entries_def listed_names_not_empty)
  then show "[] \<notin> set (requested (snd (generate_text api_key listing gen [])))"
    using requested_of_generate_text [of api_key listing gen "[]"] by auto
qed

theorem empty_preference_candidates_witness:
  "build_candidates [] [''zeta'', ''gemini-pro'', ''zeta'', ''alpha'', ''gemini-2.5-pro''] =
     [''gemini-2.5-pro'', ''gemini-pro'', ''zeta'', ''alpha'']"
proof -
  have "build_candidates [] [''zeta'', ''gemini-pro'', ''zeta'', ''alpha'', ''gemini-2.5-pro''] =
     filter (\<lambda>n. n \<in> set [''zeta'', ''gemini-pro'', ''zeta'', ''alpha'', ''gemini-2.5-pro''])
       pref_order @
     first_occurrences pref_order [''zeta'', ''gemini-pro'', ''zeta'', ''alpha'', ''gemini-2.5-pro'']"
    using empty_preference_candidates by (rule conjunct1)
  then show ?thesis by (simp add: pref_order_def)
qed

text \<open>
  C4 (as amended): for every preferred identifier and every available list the candidate
  list has no duplicate and consists of three parts: the preferred entries, then the
  ranking identifiers that are available and are not preferred entries, in ranking order,
  then the available identifiers that are neither preferred entries nor in the ranking, in
  their original order (each at its first occurrence).  A non-empty preferred identifier is
  the first candidate, and its \<open>-latest\<close> variant is the second one when the identifier does
  not end with \<open>-latest\<close> and starts with \<open>gemini-1.5-\<close> or \<open>gemini-2.\<close>.  For the preferred
  identifier \<open>x\<close> and the available list of \<open>gemini-1.5-flash\<close> alone the candidates are
  \<open>x\<close>, \<open>gemini-1.5-flash\<close>.
\<close>

theorem candidate_list_structure:
  "distinct (build_candidates model_name available) \<and>
   build_candidates model_name available =
     preferred_entries model_name @
     filter (\<lambda>n. n \<in> set available \<and> n \<notin> set (preferred_entries model_name)) pref_order @
     first_occurrences (preferred_entries model_name @ pref_order) available \<and>
   (model_name \<noteq> [] \<longrightarrow>
      hd (build_candidates model_name available) = model_name \<and>
      preferred_entries model_name =
        (if \<not> endswith model_name ''-latest'' \<and>
            (startswith model_name ''gemini-1.5-'' \<or> startswith model_name ''gemini-2.'')
         then [model_name, model_name @ ''-latest'']
         else [model_name])) \<and>
   build_candidates ''x'' [''gemini-1.5-flash''] = [''x'', ''gemini-1.5-flash'']"
proof (intro conjI impI)
  show "distinct (build_candidates model_name available)"
    by (rule distinct_build_candidates)
  show "build_candidates model_name available =
     preferred_entries model_name @
     filter (\<lambda>n. n \<in> set available \<and> n \<notin> set (preferred_entries model_name)) pref_order @
     first_occurrences (preferred_entries model_name @ pref_order) available"
    by (rule build_candidates_eq)
  show "hd (build_candidates model_name available) = model_name" if "model_name \<noteq> []"
    using that by (simp add: build_candidates_eq preferred_entries_def)
  show "preferred_entries model_name =
        (if \<not> endswith model_name ''-latest'' \<and>
            (startswith model_name ''gemini-1.5-'' \<or> startswith model_name ''gemini-2.'')
         then [model_name, model_name @ ''-latest'']
         else [model_name])" if "model_name \<noteq> []"
    using that by (simp add: preferred_entries_def)
  show "build_candidates ''x'' [''gemini-1.5-flash''] = [''x'', ''gemini-1.5-flash'']"
    by (simp add: build_candidates_def preferred_entries_def pref_order_def
        startswith_def endswith_def)
qed

theorem candidate_list_structure_witness:
  "build_candidates ''gemini-1.5-flash''
     [''gemini-2.5-flash'', ''other'', ''gemini-1.5-flash'', ''gemini-pro'', ''other''] =
   [''gemini-1.5-flash'', ''gemini-1.5-flash-latest'', ''gemini-2.5-flash'', ''gemini-pro'',
    ''other''] \<and>
   hd (build_candidates ''gemini-1.5-flash''
     [''gemini-2.5-flash'', ''other'', ''gemini-1.5-flash'', ''gemini-pro'', ''other'']) =
   ''gemini-1.5-flash''"
proof -
  let ?av = "[''gemini-2.5-flash'', ''other'', ''gemini-1.5-flash'', ''gemini-pro'', ''other'']"
  note s = candidate_list_structure [of "''gemini-1.5-flash''" ?av]
  have ne: "''gemini-1.5-flash'' \<noteq> []" by simp
  have p: "preferred_entries ''gemini-1.5-flash'' =
      [''gemini-1.5-flash'', ''gemini-1.5-flash-latest'']"
    by (simp add: preferred_entries_def startswith_def endswith_def)
  have "build_candidates ''gemini-1.5-flash'' ?av =
     preferred_entries ''gemini-1.5-flash'' @
     filter (\<lambda>n. n \<in> set ?av \<and> n \<notin> set (preferred_entries ''gemini-1.5-flash'')) pref_order @
     first_occurrences (preferred_entries ''gemini-1.5-flash'' @ pref_order) ?av"
    using s by (elim conjE)
  then have a: "build_candidates ''gemini-1.5-flash'' ?av =
     [''gemini-1.5-flash'', ''gemini-1.5-flash-latest'', ''gemini-2.5-flash'', ''gemini-pro'',
      ''other'']"
    unfolding p by (simp add: pref_order_def)
  have b: "hd (build_candidates ''gemini-1.5-flash'' ?av) = ''gemini-1.5-flash''"
    using s ne by blast
  show ?thesis using a b by (intro conjI)
qed

text \<open>
  C4 as stated fails in two places.  With the preferred identifier \<open>gemini-1.5-flash\<close> and
  the available identifiers \<open>gemini-2.5-flash\<close>, \<open>gemini-1.5-flash\<close>, both of the ranking, the
  ranking has \<open>gemini-2.5-flash\<close> (position 0) before \<open>gemini-1.5-flash\<close> (position 4), and the
  candidate list has them the other way round.  With the empty preferred identifier the
  candidate list does not start with it.
\<close>

theorem candidate_order_counterexample:
  "build_candidates ''gemini-1.5-flash'' [''gemini-2.5-flash'', ''gemini-1.5-flash''] =
     [''gemini-1.5-flash'', ''gemini-1.5-flash-latest'', ''gemini-2.5-flash''] \<and>
   pref_order ! 0 = ''gemini-2.5-flash'' \<and>
   pref_order ! 4 = ''gemini-1.5-flash'' \<and>
   build_candidates [] [''gemini-1.5-flash''] = [''gemini-1.5-flash'']"
  by (simp add: build_candidates_def preferred_entries_def pref_order_def
      startswith_def endswith_def)

section \<open>Properties of the fenced-block extraction\<close>

lemma fence_match_at_no_tick: "c \<noteq> CHR 0x60 \<Longrightarrow> fence_match_at (c # cs) = None"
  by (simp add: fence_match_at_def lit_def fence_def)

lemma fence_finditer_no_tick: "CHR 0x60 \<notin> set s \<Longrightarrow> fence_finditer s = []"
  by (induction s) (auto simp: fence_match_at_no_tick)

lemma fence_finditer_skip:
  "CHR 0x60 \<notin> set pre \<Longrightarrow> fence_finditer (pre @ s) = fence_finditer s"
  by (induction pre) (auto simp: fence_match_at_no_tick)

lemma fence_finditer_match:
  "fence_match_at s = Some (m, rest) \<Longrightarrow> fence_finditer s = m # fence_finditer rest"
  by (cases s) (auto simp: fence_match_at_def lit_def fence_def)

lemma closing_fence_inside:
  assumes "prefix (CHR 0x0A # fence) (xs @ CHR 0x0A # ys)" and "xs \<noteq> []"
  shows "prefix (CHR 0x0A # fence) xs"
proof -
  obtain a as where xs: "xs = a # as" using assms(2) by (cases xs) auto
  show ?thesis
  proof (cases as)
    case Nil
    then show ?thesis using assms(1) xs by (simp add: fence_def)
  next
    case (Cons b bs)
    note as = Cons
    show ?thesis
    proof (cases bs)
      case Nil
      then show ?thesis using assms(1) xs as by (simp add: fence_def)
    next
      case (Cons c cs)
      note bs = Cons
      show ?thesis
      proof (cases cs)
        case Nil
        then show ?thesis using assms(1) xs as bs by (simp add: fence_def)
      next
        case (Cons d ds)
        then show ?thesis using assms(1) xs as bs by (auto simp: fence_def)
      qed
    qed
  qed
qed

lemma lazy_body_exact:
  "\<not> contains (CHR 0x0A # fence) body \<Longrightarrow>
   lazy_body (body @ CHR 0x0A # fence @ post) = Some (body, post)"
proof (induction body)
  case Nil
  show ?case by (simp add: fence_def)
next
  case (Cons c body)
  from Cons.prems have np: "\<not> prefix (CHR 0x0A # fence) (c # body)"
    and nc: "\<not> contains (CHR 0x0A # fence) body"
    by simp_all
  have "\<not> prefix (CHR 0x0A # fence) ((c # body) @ CHR 0x0A # fence @ post)"
    using np closing_fence_inside [of "c # body" "fence @ post"] by blast
  then show ?case
    using Cons.IH [OF nc] by simp
qed

lemma newline_not_word: "\<not> is_word (CHR 0x0A)"
  by (simp add: is_word_def)

lemma fence_match_at_block:
  assumes tag: "\<forall>c \<in> set tag. is_word c"
    and body: "\<not> contains (CHR 0x0A # fence) body"
  shows "fence_match_at (fence @ tag @ CHR 0x0A # body @ CHR 0x0A # fence @ post) =
         Some (\<lparr>group1 = (if tag = [] then None else Some tag), group2 = body\<rparr>, post)"
proof -
  let ?r = "tag @ CHR 0x0A # body @ CHR 0x0A # fence @ post"
  have l: "lit fence (fence @ ?r) = Some ?r"
    by (simp add: lit_def)
  have t: "takeWhile is_word ?r = tag"
    using tag by (simp add: takeWhile_tail newline_not_word)
  have d: "dropWhile is_word ?r = CHR 0x0A # body @ CHR 0x0A # fence @ post"
    using tag by (simp add: dropWhile_append2 newline_not_word)
  have n: "lit [CHR 0x0A] (CHR 0x0A # body @ CHR 0x0A # fence @ post) =
      Some (body @ CHR 0x0A # fence @ post)"
    by (simp add: lit_def)
  show ?thesis
    unfolding fence_match_at_def l
    by (simp add: Let_def t d n lazy_body_exact [OF body] del: append_assoc)
qed

lemma extract_single_block:
  assumes pre: "CHR 0x60 \<notin> set pre"
    and tag: "\<forall>c \<in> set tag. is_word c"
    and body: "\<not> contains (CHR 0x0A # fence) body"
    and post: "CHR 0x60 \<notin> set post"
  shows "extract_code_blocks (pre @ fence @ tag @ CHR 0x0A # body @ CHR 0x0A # fence @ post) =
         [(strip (lower_str tag), body)]"
proof -
  have "fence_finditer (pre @ fence @ tag @ CHR 0x0A # body @ CHR 0x0A # fence @ post) =
        fence_finditer (fence @ tag @ CHR 0x0A # body @ CHR 0x0A # fence @ post)"
    using pre by (rule fence_finditer_skip)
  also have "\<dots> = \<lparr>group1 = (if tag = [] then None else Some tag), group2 = body\<rparr> #
        fence_finditer post"
    using fence_match_at_block [OF tag body] by (rule fence_finditer_match)
  also have "fence_finditer post = []"
    using post by (rule fence_finditer_no_tick)
  finally show ?thesis
    by (simp add: extract_code_blocks_def or_empty_def lower_str_def)
qed

text \<open>
  C5: a text with exactly one fenced block, of language tag \<open>python\<close> and body \<open>print(1)\<close>
  (the block alone, or with text that has no backtick before and after it), gives exactly
  one extracted block, with the tag \<open>python\<close> and the body \<open>print(1)\<close> unchanged.
\<close>

theorem python_block_roundtrip:
  assumes "CHR 0x60 \<notin> set pre" and "CHR 0x60 \<notin> set post"
  shows "extract_code_blocks
           (pre @ fence @ ''python\<newline>print(1)\<newline>'' @ fence @ post) =
         [(''python'', ''print(1)'')]"
proof -
  have tag: "\<forall>c \<in> set ''python''. is_word c"
    by (simp add: is_word_def)
  have body: "\<not> contains (CHR 0x0A # fence) ''print(1)''"
    by (simp add: fence_def)
  have "strip (lower_str ''python'') = ''python''"
    by (simp add: strip_def lower_str_def lower_char_def is_space_def)
  then show ?thesis
    using extract_single_block [OF assms(1) tag body assms(2)] by simp
qed

theorem python_block_roundtrip_witness:
  "extract_code_blocks (fence @ ''python\<newline>print(1)\<newline>'' @ fence) =
     [(''python'', ''print(1)'')] \<and>
   extract_code_blocks
     (''Result:\<newline>'' @ fence @ ''python\<newline>print(1)\<newline>'' @ fence @ ''\<newline>Done.'') =
     [(''python'', ''print(1)'')]"
proof -
  have a: "CHR 0x60 \<notin> set []" by simp
  have b: "CHR 0x60 \<notin> set ''Result:\<newline>''" by simp
  have c: "CHR 0x60 \<notin> set ''\<newline>Done.''" by simp
  show ?thesis
    using python_block_roundtrip [OF a a] python_block_roundtrip [OF b c] by simp
qed

section \<open>Properties of the largest-block selection\<close>




section \<open>Properties of the numbered-line extraction\<close>









section \<open>Properties of the path argument\<close>

text \<open>
  C8: the check of line 566 compares the two path strings with \<open>startswith\<close>.  With the
  working directory \<open>/home/u/proj\<close> and the file \<open>/home/u/proj2/secret.py\<close>, which lies in
  another directory, the check passes and the file is read.
\<close>

theorem path_check_reads_sibling_directory:
  "read_path_argument
     (\<lambda>p. if p = ''/home/u/proj2/secret.py'' then File ''secret = 1'' else NoFile)
     ''/home/u/proj'' ''/home/u/proj2/secret.py'' =
     FileText ''/home/u/proj2/secret.py'' ''secret = 1'' \<and>
   \<not> inside_directory ''/home/u/proj'' ''/home/u/proj2/secret.py''"
  by (simp add: read_path_argument_def startswith_def inside_directory_def strip_def
      is_space_def)

theorem path_check_reads_sibling_directory_witness:
  "read_path_argument
     (\<lambda>p. if p = ''/home/u/proj2/secret.py'' then File ''secret = 1'' else NoFile)
     ''/home/u/proj'' ''/home/u/proj2/secret.py'' \<noteq> Refused"
  using path_check_reads_sibling_directory by simp

section \<open>Properties of the fallback of \<open>_ai_generate_fixed_code\<close>\<close>

text \<open>
  C9: when \<open>generate_text\<close> returns a text in which the fence pattern has no match,
  \<open>_ai_generate_fixed_code\<close> raises nothing: it returns the input code unchanged, paired
  with the language that \<open>_guess_language_simple\<close> finds for that code.
\<close>

theorem no_fenced_block_returns_input:
  assumes "fst (generate_text api_key listing gen model_name) = Returned out"
    and "fence_finditer out = []"
  shows "fixed_code_of_response code_text out = (guess_language_simple code_text, code_text) \<and>
         ai_generate_fixed_code api_key listing gen code_text model_name =
           Inr (guess_language_simple code_text, code_text)"
  using assms
  by (simp add: ai_generate_fixed_code_def fixed_code_of_response_def largest_block_def)

theorem no_fenced_block_returns_input_witness:
  "fence_finditer ''Sorry, no code.'' = [] \<and>
   guess_language_simple ''def f(): pass'' = ''python'' \<and>
   ai_generate_fixed_code (Some ''k'') [] (\<lambda>n. Inr ''Sorry, no code.'') ''def f(): pass''
     ''gemini-pro'' = Inr (''python'', ''def f(): pass'')"
proof -
  have g: "fst (generate_text (Some ''k'') [] (\<lambda>n. Inr ''Sorry, no code.'') ''gemini-pro'') =
      Returned ''Sorry, no code.''"
    by (simp add: generate_text_def build_candidates_def preferred_entries_def pref_order_def
        startswith_def endswith_def initial_state_def)
  have f: "fence_finditer ''Sorry, no code.'' = []"
    by (rule fence_finditer_no_tick) simp
  have p: "guess_language_simple ''def f(): pass'' = ''python''"
    by code_simp
  show ?thesis
    using no_fenced_block_returns_input [OF g f, of "''def f(): pass''"] f p by simp
qed

end
